theory Spec2Isabelle
  imports Main
begin

section \<open>The Observable class (src/unnamed/part_003)\<close>

text \<open>
  A subscriber is a JavaScript function object. The class compares subscribers with
  \<^verbatim>\<open>!==\<close>, that is by reference, so a subscriber is represented by its reference;
  what the function does when it is called is looked up in a table of subscriber code.
  Calling a subscriber may change everything the function can reach: the subscriber
  array of the bus (through \<^verbatim>\<open>subscribe\<close> and the closures it returned) and the
  rest of the program state, the field \<open>ext\<close>. A call either returns or throws.
\<close>

type_synonym ref = nat

datatype completion = Normal | Throw string

record 'a world =
  subscribers :: "ref list"
  ext :: 'a

type_synonym ('e, 'a) subscriber_code = "ref \<Rightarrow> 'e \<Rightarrow> 'a world \<Rightarrow> completion \<times> 'a world"

text \<open>\<^verbatim>\<open>private subscribers: Array<Subscriber<T>> = []\<close>\<close>

definition new_observable :: "'a \<Rightarrow> 'a world" where
  "new_observable x = \<lparr>subscribers = [], ext = x\<rparr>"

text \<open>
  The closure returned by \<^verbatim>\<open>subscribe\<close> captures the variable \<^verbatim>\<open>subscriber\<close> and
  nothing else, so it is determined by that reference.
\<close>

datatype handle = Unsubscribe ref

text \<open>
  \<^verbatim>\<open>subscribe(subscriber) { this.subscribers.push(subscriber); return () => {...} }\<close>
\<close>

definition subscribe :: "ref \<Rightarrow> 'a world \<Rightarrow> handle \<times> 'a world" where
  "subscribe subscriber w =
     (Unsubscribe subscriber, w\<lparr>subscribers := subscribers w @ [subscriber]\<rparr>)"

text \<open>
  The body of the returned closure:
  \<^verbatim>\<open>this.subscribers = this.subscribers.filter((s) => s !== subscriber)\<close>.
  It builds a new array and assigns it to the field; the old array object is left as
  it was. Neither the comparison nor \<^verbatim>\<open>filter\<close> can throw, so the call has no
  failure outcome.
\<close>

fun invoke :: "handle \<Rightarrow> 'a world \<Rightarrow> 'a world" where
  "invoke (Unsubscribe subscriber) w =
     w\<lparr>subscribers := filter (\<lambda>s. s \<noteq> subscriber) (subscribers w)\<rparr>"

text \<open>
  \<^verbatim>\<open>emit(data) { this.subscribers.forEach((s) => s(data)) }\<close>

  \<^verbatim>\<open>Array.prototype.forEach\<close> reads the length of the array once, before the first
  call, and then visits the indices below it in order. While it runs the array object
  it walks can only grow at its end (\<^verbatim>\<open>push\<close> in \<^verbatim>\<open>subscribe\<close>); an unsubscribe
  closure assigns a new array to the field and does not touch the one being walked.
  So the elements visited are the elements the field held when \<^verbatim>\<open>emit\<close> was called,
  and \<open>forEach\<close> recurses over that list while the world is threaded through the
  calls. A subscriber that throws ends \<^verbatim>\<open>forEach\<close> and \<^verbatim>\<open>emit\<close> at once (there is
  no \<^verbatim>\<open>try\<close>); the changes made so far stay.

  The field \<open>calls\<close> of the result is a record of the calls \<^verbatim>\<open>s(data)\<close> made, in
  order, with the argument passed. It is an observation of the run, not program state:
  no subscriber can read or change it.
\<close>

record ('e, 'a) emission =
  outcome :: completion
  after :: "'a world"
  calls :: "(ref \<times> 'e) list"

fun forEach :: "('e, 'a) subscriber_code \<Rightarrow> ref list \<Rightarrow> 'e \<Rightarrow> 'a world \<Rightarrow> ('e, 'a) emission" where
  "forEach code [] data w = \<lparr>outcome = Normal, after = w, calls = []\<rparr>"
| "forEach code (s # ss) data w =
     (case code s data w of
        (Normal, w') \<Rightarrow>
          (let r = forEach code ss data w' in r\<lparr>calls := (s, data) # calls r\<rparr>)
      | (Throw x, w') \<Rightarrow> \<lparr>outcome = Throw x, after = w', calls = [(s, data)]\<rparr>)"

definition emit :: "('e, 'a) subscriber_code \<Rightarrow> 'e \<Rightarrow> 'a world \<Rightarrow> ('e, 'a) emission" where
  "emit code data w = forEach code (subscribers w) data w"

subsection \<open>Sequences of calls on the bus\<close>

text \<open>Subscribing a list of functions one after the other, keeping the closures returned.\<close>

fun subscribe_all :: "ref list \<Rightarrow> 'a world \<Rightarrow> handle list \<times> 'a world" where
  "subscribe_all [] w = ([], w)"
| "subscribe_all (s # ss) w =
     (case subscribe s w of (h, w') \<Rightarrow>
        (case subscribe_all ss w' of (hs, w'') \<Rightarrow> (h # hs, w'')))"

text \<open>
  A program that uses the bus from outside a subscriber: each operation is one call,
  made after the previous one has returned or thrown. An exception of \<^verbatim>\<open>emit\<close>
  reaches the caller of that \<^verbatim>\<open>emit\<close> only; the later operations still run.
\<close>

datatype 'e operation = Subscribe ref | Invoke handle | Emit 'e

fun perform :: "('e, 'a) subscriber_code \<Rightarrow> 'e operation \<Rightarrow>
    'a world \<times> (ref \<times> 'e) list \<Rightarrow> 'a world \<times> (ref \<times> 'e) list" where
  "perform code (Subscribe s) (w, t) = (snd (subscribe s w), t)"
| "perform code (Invoke h) (w, t) = (invoke h w, t)"
| "perform code (Emit data) (w, t) = (let r = emit code data w in (after r, t @ calls r))"

definition run :: "('e, 'a) subscriber_code \<Rightarrow> 'e operation list \<Rightarrow> 'a world \<Rightarrow>
    'a world \<times> (ref \<times> 'e) list" where
  "run code ops w = fold (perform code) ops (w, [])"

subsection \<open>Subscribers used as concrete inputs\<close>

text \<open>\<^verbatim>\<open>() => {}\<close>: every subscriber returns at once.\<close>

definition returns :: "('e, 'a) subscriber_code" where
  "returns s data w = (Normal, w)"

text \<open>The subscriber \<open>k\<close> is \<^verbatim>\<open>() => { throw 'boom' }\<close>; the others return at once.\<close>

definition throws_at :: "ref \<Rightarrow> ('e, 'a) subscriber_code" where
  "throws_at k s data w = (if s = k then (Throw ''boom'', w) else (Normal, w))"


section \<open>Request data and validation (src/server/src/schemas.ts)\<close>

text \<open>
  A value as express hands it to a route: \<^verbatim>\<open>req.body\<close> after \<^verbatim>\<open>json()\<close>,
  \<^verbatim>\<open>req.query\<close> after the query parser. The schemas only ask whether a value is
  a string or an object, so of the numbers the integers are kept: \<open>JNumber n\<close> stands
  for the JavaScript number \<open>n\<close> when \<open>n\<close> is a safe integer (at most \<open>2^53 - 1\<close>
  in absolute value), the range in which a number is an exact integer and is printed
  digit by digit. An object is the list of its properties in insertion order, with
  no name twice; a property is looked up with \<open>map_of\<close>, and a property that is
  absent reads as \<^verbatim>\<open>undefined\<close>, here \<open>None\<close>.
\<close>

datatype json =
    JNull
  | JBool bool
  | JNumber int
  | JString string
  | JArray "json list"
  | JObject "(string \<times> json) list"

text \<open>\<^verbatim>\<open>declare type User = { id: string, name: string }\<close> (src/server/src/@types/index.d.ts)\<close>

record User =
  id' :: string
  name :: string

text \<open>
  \<^verbatim>\<open>safeParse\<close> of the zod library returns either the parsed data or an error; the
  error is \<open>None\<close> here, its diagnostics are not modelled. \<^verbatim>\<open>z.string()\<close> accepts
  every string, the empty one too, and nothing else. \<^verbatim>\<open>z.object({...})\<close> accepts an
  object (not an array, not \<^verbatim>\<open>null\<close>) whose listed properties are accepted by their
  schemas; its data has the listed properties only, in the order of the schema.
\<close>

fun z_string :: "json option \<Rightarrow> string option" where
  "z_string (Some (JString s)) = Some s"
| "z_string _ = None"

text \<open>\<^verbatim>\<open>signInSchema = z.object({ name: z.string() })\<close>; the data is the name.\<close>

definition signInSchema :: "json \<Rightarrow> string option" where
  "signInSchema v = (case v of JObject kvs \<Rightarrow> z_string (map_of kvs ''name'') | _ \<Rightarrow> None)"

text \<open>\<^verbatim>\<open>userSchema = z.object({ id: z.string(), name: z.string() })\<close>\<close>

definition userSchema :: "json option \<Rightarrow> User option" where
  "userSchema v =
     (case v of
        Some (JObject kvs) \<Rightarrow>
          (case (z_string (map_of kvs ''id''), z_string (map_of kvs ''name'')) of
             (Some i, Some n) \<Rightarrow> Some \<lparr>id' = i, name = n\<rparr>
           | _ \<Rightarrow> None)
      | _ \<Rightarrow> None)"

text \<open>
  \<^verbatim>\<open>messageSchema = z.object({ message: z.string(), user: userSchema })\<close>; the data
  is the pair of the message and the user.
\<close>

definition messageSchema :: "json \<Rightarrow> (string \<times> User) option" where
  "messageSchema v =
     (case v of
        JObject kvs \<Rightarrow>
          (case (z_string (map_of kvs ''message''), userSchema (map_of kvs ''user'')) of
             (Some m, Some u) \<Rightarrow> Some (m, u)
           | _ \<Rightarrow> None)
      | _ \<Rightarrow> None)"

section \<open>Events and their wire form\<close>

text \<open>
  \<^verbatim>\<open>declare type ChatEvent = UserSignedIn | UserMessage | UserSignedOut\<close>
  (src/server/src/@types/index.d.ts); the data of \<^verbatim>\<open>UserMessage\<close> is
  \<^verbatim>\<open>{ id, user, message }\<close>.
\<close>

datatype ChatEvent =
    UserSignedIn User
  | UserMessage string User string
  | UserSignedOut User

text \<open>
  The objects as the routes of src/unnamed/part_004 build them, with the properties in
  the order of creation: \<^verbatim>\<open>{ id: v4(), name: result.data.name }\<close> for a registered
  user, the data of \<^verbatim>\<open>userSchema\<close> (\<^verbatim>\<open>id\<close>, \<^verbatim>\<open>name\<close>) for a stream, and
  \<^verbatim>\<open>{ ...result.data, id: v4() }\<close> for a message, which is \<^verbatim>\<open>message\<close>,
  \<^verbatim>\<open>user\<close>, \<^verbatim>\<open>id\<close>.
\<close>

definition user_object :: "User \<Rightarrow> json" where
  "user_object u = JObject [(''id'', JString (id' u)), (''name'', JString (name u))]"

fun event_object :: "ChatEvent \<Rightarrow> json" where
  "event_object (UserSignedIn u) =
     JObject [(''discriminant'', JString ''UserSignedIn''),
              (''data'', JObject [(''user'', user_object u)])]"
| "event_object (UserMessage i u m) =
     JObject [(''discriminant'', JString ''UserMessage''),
              (''data'', JObject [(''message'', JString m), (''user'', user_object u),
                                  (''id'', JString i)])]"
| "event_object (UserSignedOut u) =
     JObject [(''discriminant'', JString ''UserSignedOut''),
              (''data'', JObject [(''user'', user_object u)])]"

text \<open>
  \<^verbatim>\<open>JSON.stringify\<close>. A string is a list of bytes, the UTF-8 form of a JavaScript
  string of valid Unicode: the quotation mark, the backslash and the control
  characters are escaped, every other byte is kept.
\<close>

definition hex_digit :: "nat \<Rightarrow> char" where
  "hex_digit n = (if n < 10 then char_of (48 + n) else char_of (87 + n))"

definition escape :: "char \<Rightarrow> string" where
  "escape c =
     (if c = CHR 0x22 then [CHR 0x5C, CHR 0x22]
      else if c = CHR 0x5C then [CHR 0x5C, CHR 0x5C]
      else if c = CHR 0x08 then [CHR 0x5C, CHR ''b'']
      else if c = CHR 0x0C then [CHR 0x5C, CHR ''f'']
      else if c = CHR 0x0A then [CHR 0x5C, CHR ''n'']
      else if c = CHR 0x0D then [CHR 0x5C, CHR ''r'']
      else if c = CHR 0x09 then [CHR 0x5C, CHR ''t'']
      else if (of_char c :: nat) < 32
        then [CHR 0x5C, CHR ''u'', CHR ''0'', CHR ''0'',
              hex_digit (of_char c div 16), hex_digit (of_char c mod 16)]
      else [c])"

definition quote :: "string \<Rightarrow> string" where
  "quote s = CHR 0x22 # concat (map escape s) @ [CHR 0x22]"

fun digits :: "nat \<Rightarrow> string" where
  "digits n =
     (if n < 10 then [char_of (48 + n)] else digits (n div 10) @ [char_of (48 + n mod 10)])"

fun join :: "string \<Rightarrow> string list \<Rightarrow> string" where
  "join sep [] = []"
| "join sep [x] = x"
| "join sep (x # y # ys) = x @ sep @ join sep (y # ys)"

fun stringify :: "json \<Rightarrow> string" where
  "stringify JNull = ''null''"
| "stringify (JBool b) = (if b then ''true'' else ''false'')"
| "stringify (JNumber n) = (if n < 0 then ''-'' @ digits (nat (- n)) else digits (nat n))"
| "stringify (JString s) = quote s"
| "stringify (JArray xs) = ''['' @ join '','' (map stringify xs) @ '']''"
| "stringify (JObject kvs) =
     ''{'' @ join '','' (map (\<lambda>(k, v). quote k @ '':'' @ stringify v) kvs) @ ''}''"

section \<open>The server (src/unnamed/part_004)\<close>

text \<open>
  What a request to \<^verbatim>\<open>/chat/sse\<close> that passed validation leaves behind: the
  variables its two closures capture (\<^verbatim>\<open>result.data\<close>, \<^verbatim>\<open>unsubscribe\<close>) and the
  response \<^verbatim>\<open>res\<close>, with the headers set and the chunks given to \<^verbatim>\<open>res.write\<close>
  so far. Connections are numbered in the order they were accepted. \<open>req_closed\<close>
  is the state of the request \<^verbatim>\<open>req\<close> in Node: whether it has emitted
  \<^verbatim>\<open>'close'\<close>.
\<close>

record sse_connection =
  result_data :: User
  unsubscribe :: handle
  res_headers :: "(string \<times> string) list"
  res_chunks :: "string list"
  req_closed :: bool

text \<open>
  The state of the process besides the subscriber array of \<^verbatim>\<open>events\<close>. The uuid
  library is not part of the repository: \<^verbatim>\<open>v4()\<close> is a parameter \<open>v4\<close> of the routes,
  the sequence of the values it returns, and \<open>minted\<close> counts the calls made.
  \<open>published\<close> lists the arguments of the calls of \<^verbatim>\<open>events.emit\<close> in order; it is
  an observation of the run and nothing reads it. The calls of the logger are left out.
\<close>

record server =
  connections :: "sse_connection list"
  minted :: nat
  published :: "ChatEvent list"

definition boot :: "server world" where
  "boot = new_observable \<lparr>connections = [], minted = 0, published = []\<rparr>"

text \<open>\<^verbatim>\<open>res.write(chunk)\<close> on the response of connection \<open>k\<close>.\<close>

definition res_write :: "nat \<Rightarrow> string \<Rightarrow> server \<Rightarrow> server" where
  "res_write k chunk sv =
     (if k < length (connections sv)
      then sv\<lparr>connections := (connections sv)
             [k := (connections sv ! k)\<lparr>res_chunks := res_chunks (connections sv ! k) @ [chunk]\<rparr>]\<rparr>
      else sv)"

text \<open>
  The subscriber of connection \<open>k\<close>, the closure created at line 53:
  \<^verbatim>\<open>(event) => { res.write(`event: message\n`); res.write(`data: ${JSON.stringify(event)}\n\n`) }\<close>.
  Every request creates a new closure, whose reference is the number of the connection.
\<close>

definition sse_subscriber :: "(ChatEvent, server) subscriber_code" where
  "sse_subscriber k event w =
     (Normal,
      w\<lparr>ext := res_write k (''data: '' @ stringify (event_object event) @ ''\<newline>\<newline>'')
                  (res_write k ''event: message\<newline>'' (ext w))\<rparr>)"

text \<open>
  \<^verbatim>\<open>events.emit(event)\<close> in a route. The subscribers of \<^verbatim>\<open>events\<close> are the closures
  above, which return, so the call returns.
\<close>

definition events_emit :: "ChatEvent \<Rightarrow> server world \<Rightarrow> server world" where
  "events_emit event w =
     (let w' = after (emit sse_subscriber event w)
      in w'\<lparr>ext := (ext w')\<lparr>published := published (ext w') @ [event]\<rparr>\<rparr>)"

datatype payload = Empty | Json string | Diagnostics

record response =
  status :: nat
  payload :: payload

text \<open>
  \<^verbatim>\<open>app.get('/chat/sse', ...)\<close>. A request that fails validation is answered with
  status 400; one that passes gets no answer from the route: the response stays open.
  \<^verbatim>\<open>res.header\<close> of express adds the character set to a \<^verbatim>\<open>Content-Type\<close> that
  names none.
\<close>

definition get_chat_sse :: "json \<Rightarrow> server world \<Rightarrow> response option \<times> server world" where
  "get_chat_sse query w =
     (case userSchema (Some query) of
        None \<Rightarrow> (Some \<lparr>status = 400, payload = Diagnostics\<rparr>, w)
      | Some data \<Rightarrow>
          (let k = length (connections (ext w));
               headers = [(''Cache-Control'', ''no-store''),
                          (''Content-Type'', ''text/event-stream; charset=utf-8''),
                          (''Connection'', ''keep-alive'')]
           in case subscribe k w of
                (h, w') \<Rightarrow>
                  (None,
                   w'\<lparr>ext := (ext w')\<lparr>connections := connections (ext w') @
                     [\<lparr>result_data = data, unsubscribe = h, res_headers = headers,
                       res_chunks = [], req_closed = False\<rparr>]\<rparr>\<rparr>)))"

text \<open>
  The listener of connection \<open>k\<close> for \<^verbatim>\<open>'close'\<close>, registered with \<^verbatim>\<open>req.on\<close>:
  \<^verbatim>\<open>unsubscribe(); events.emit({ discriminant: 'UserSignedOut', data: { user: result.data } })\<close>.
  It runs each time the request emits the event.
\<close>

definition on_close :: "nat \<Rightarrow> server world \<Rightarrow> server world" where
  "on_close k w =
     (if k < length (connections (ext w))
      then let c = connections (ext w) ! k
           in events_emit (UserSignedOut (result_data c)) (invoke (unsubscribe c) w)
      else w)"

text \<open>\<^verbatim>\<open>app.post('/chat/register', ...)\<close>\<close>

definition post_chat_register :: "(nat \<Rightarrow> string) \<Rightarrow> json \<Rightarrow> server world \<Rightarrow> response \<times> server world" where
  "post_chat_register v4 body w =
     (case signInSchema body of
        None \<Rightarrow> (\<lparr>status = 400, payload = Diagnostics\<rparr>, w)
      | Some n \<Rightarrow>
          (let user = \<lparr>id' = v4 (minted (ext w)), name = n\<rparr>;
               w1 = w\<lparr>ext := (ext w)\<lparr>minted := Suc (minted (ext w))\<rparr>\<rparr>;
               w2 = events_emit (UserSignedIn user) w1
           in (\<lparr>status = 200, payload = Json (stringify (user_object user))\<rparr>, w2)))"

text \<open>\<^verbatim>\<open>app.post('/chat/message', ...)\<close>\<close>

definition post_chat_message :: "(nat \<Rightarrow> string) \<Rightarrow> json \<Rightarrow> server world \<Rightarrow> response \<times> server world" where
  "post_chat_message v4 body w =
     (case messageSchema body of
        None \<Rightarrow> (\<lparr>status = 400, payload = Diagnostics\<rparr>, w)
      | Some (m, u) \<Rightarrow>
          (let i = v4 (minted (ext w));
               w1 = w\<lparr>ext := (ext w)\<lparr>minted := Suc (minted (ext w))\<rparr>\<rparr>;
               w2 = events_emit (UserMessage i u m) w1
           in (\<lparr>status = 204, payload = Empty\<rparr>, w2)))"

text \<open>
  The transport of connection \<open>k\<close> closes: the peer went away or the socket
  failed. Node emits \<^verbatim>\<open>'close'\<close> on a request once, so the first signal runs the
  listener, and a signal for a request that has emitted \<^verbatim>\<open>'close'\<close> runs nothing.
  No other event of the request or the response has a listener.
\<close>

definition mark_closed :: "nat \<Rightarrow> server world \<Rightarrow> server world" where
  "mark_closed k w =
     w\<lparr>ext := (ext w)\<lparr>connections := (connections (ext w))
       [k := (connections (ext w) ! k)\<lparr>req_closed := True\<rparr>]\<rparr>\<rparr>"

definition transport_close :: "nat \<Rightarrow> server world \<Rightarrow> server world" where
  "transport_close k w =
     (if k < length (connections (ext w)) \<and> \<not> req_closed (connections (ext w) ! k)
      then on_close k (mark_closed k w)
      else w)"

text \<open>
  What reaches the process: the three kinds of request and the close signals of the
  transports.
\<close>

datatype request =
    GetChatSse json
  | PostChatRegister json
  | PostChatMessage json
  | Close nat

fun serve :: "(nat \<Rightarrow> string) \<Rightarrow> request \<Rightarrow> server world \<Rightarrow> server world" where
  "serve v4 (GetChatSse query) w = snd (get_chat_sse query w)"
| "serve v4 (PostChatRegister body) w = snd (post_chat_register v4 body w)"
| "serve v4 (PostChatMessage body) w = snd (post_chat_message v4 body w)"
| "serve v4 (Close k) w = transport_close k w"

text \<open>The two chunks one event puts on a stream.\<close>

definition frame :: "ChatEvent \<Rightarrow> string list" where
  "frame event =
     [''event: message\<newline>'', ''data: '' @ stringify (event_object event) @ ''\<newline>\<newline>'']"

text \<open>A connection after one more event was written to its response.\<close>

definition add_frame :: "ChatEvent \<Rightarrow> sse_connection \<Rightarrow> sse_connection" where
  "add_frame event c = c\<lparr>res_chunks := res_chunks c @ frame event\<rparr>"

text \<open>
  What holds of every state the server reaches: no closure is subscribed twice, every
  subscriber belongs to a connection, and connection \<open>k\<close> holds the closure that
  unsubscribes subscriber \<open>k\<close>.
\<close>

definition consistent :: "server world \<Rightarrow> bool" where
  "consistent w \<longleftrightarrow>
     distinct (subscribers w)
     \<and> (\<forall>k\<in>set (subscribers w). k < length (connections (ext w)))
     \<and> (\<forall>k < length (connections (ext w)). unsubscribe (connections (ext w) ! k) = Unsubscribe k)"

subsection \<open>Concrete inputs\<close>

text \<open>A sequence of identifiers standing for the values of \<^verbatim>\<open>v4()\<close>.\<close>

definition v4_sample :: "nat \<Rightarrow> string" where
  "v4_sample n = ''uuid-'' @ replicate n (CHR ''x'')"

definition alice :: json where
  "alice = JObject [(''id'', JString ''u1''), (''name'', JString ''Alice'')]"

definition bob :: json where
  "bob = JObject [(''id'', JString ''u2''), (''name'', JString ''Bob'')]"

section \<open>Properties of the Observable class\<close>

lemma subscribers_subscribe_all:
  "subscribers (snd (subscribe_all rs w)) = subscribers w @ rs"
proof (induction rs arbitrary: w)
  case Nil
  show ?case by simp
next
  case (Cons r rs)
  from Cons.IH [of "w\<lparr>subscribers := subscribers w @ [r]\<rparr>"] show ?case
    by (auto simp: subscribe_def split: prod.splits)
qed

lemma subscribers_invoke_all:
  "subscribers (fold invoke hs w) = filter (\<lambda>s. Unsubscribe s \<notin> set hs) (subscribers w)"
proof (induction hs arbitrary: w)
  case Nil
  show ?case by simp
next
  case (Cons h hs)
  obtain r where h: "h = Unsubscribe r" by (cases h)
  have "filter (\<lambda>s. Unsubscribe s \<notin> set hs) (filter (\<lambda>s. s \<noteq> r) (subscribers w))
      = filter (\<lambda>s. Unsubscribe s \<notin> set (h # hs)) (subscribers w)"
    by (auto simp: h intro: filter_cong)
  with Cons.IH [of "invoke h w"] show ?case by (simp add: h)
qed

lemma forEach_all_return:
  assumes "\<forall>s w. fst (code s data w) = Normal"
  shows "calls (forEach code ss data w) = map (\<lambda>s. (s, data)) ss
       \<and> outcome (forEach code ss data w) = Normal"
proof (induction ss arbitrary: w)
  case Nil
  show ?case by simp
next
  case (Cons s ss)
  obtain c w' where step: "code s data w = (c, w')" by (cases "code s data w")
  with assms have "c = Normal" by (metis fst_conv)
  with step Cons.IH [of w'] show ?case by (simp add: Let_def)
qed

lemma forEach_append_return:
  assumes "\<forall>r\<in>set pre. \<forall>w. fst (code r data w) = Normal"
  shows "\<exists>w'. forEach code (pre @ ss) data w =
      (forEach code ss data w')\<lparr>calls := map (\<lambda>r. (r, data)) pre @ calls (forEach code ss data w')\<rparr>"
  using assms
proof (induction pre arbitrary: w)
  case Nil
  show ?case by (intro exI [of _ w]) simp
next
  case (Cons p pre)
  obtain c w1 where step: "code p data w = (c, w1)" by (cases "code p data w")
  with Cons.prems have c: "c = Normal" by (metis fst_conv list.set_intros(1))
  from Cons.prems have "\<forall>r\<in>set pre. \<forall>w. fst (code r data w) = Normal" by simp
  from Cons.IH [OF this, of w1] obtain w' where
    "forEach code (pre @ ss) data w1 =
      (forEach code ss data w')\<lparr>calls := map (\<lambda>r. (r, data)) pre @ calls (forEach code ss data w')\<rparr>"
    by blast
  with step c show ?case by (auto simp: Let_def)
qed


lemma count_list_distinct:
  "distinct xs \<Longrightarrow> count_list xs x = (if x \<in> set xs then 1 else 0)"
  by (induction xs) auto




subsection \<open>Claim C1: one publish after subscribe calls\<close>

text \<open>
  Claim C1 (as written): for every sequence of subscribe calls followed by one publish,
  every callback still subscribed is invoked exactly once with the event, in
  registration order, and unsubscribed callbacks are not invoked.

  The statement fails when the same function is subscribed twice: \<^verbatim>\<open>push\<close> adds it
  a second time and \<^verbatim>\<open>forEach\<close> calls it twice.
\<close>

theorem emit_duplicate_counterexample:
  "calls (emit returns (7::nat) (snd (subscribe_all [0, 0] (new_observable ())))) = [(0, 7), (0, 7)]"
  by (simp add: emit_def subscribe_def new_observable_def returns_def)

text \<open>
  Claim C1 (amended): after the functions \<open>rs\<close> are subscribed in that order on a
  new bus and the closures \<open>hs\<close> are invoked, one \<^verbatim>\<open>emit(e)\<close> whose subscribers
  all return calls exactly the subscribed functions whose closure was not invoked, in
  registration order, each with \<open>e\<close>, once for every time it was subscribed. No
  function whose closure was invoked is called. When the functions subscribed are
  pairwise different, each one still subscribed is called exactly once.
\<close>

theorem emit_reaches_remaining_subscribers:
  assumes "\<forall>s w. fst (code s e w) = Normal"
  shows "calls (emit code e (fold invoke hs (snd (subscribe_all rs (new_observable x)))))
           = map (\<lambda>s. (s, e)) (filter (\<lambda>s. Unsubscribe s \<notin> set hs) rs)
       \<and> outcome (emit code e (fold invoke hs (snd (subscribe_all rs (new_observable x))))) = Normal
       \<and> (\<forall>s. Unsubscribe s \<in> set hs \<longrightarrow>
            s \<notin> fst ` set (calls (emit code e (fold invoke hs (snd (subscribe_all rs (new_observable x)))))))
       \<and> (distinct rs \<longrightarrow> (\<forall>s\<in>set rs. Unsubscribe s \<notin> set hs \<longrightarrow>
            count_list (calls (emit code e (fold invoke hs (snd (subscribe_all rs (new_observable x)))))) (s, e) = 1))"
proof -
  define w where "w = fold invoke hs (snd (subscribe_all rs (new_observable x)))"
  define left where "left = filter (\<lambda>s. Unsubscribe s \<notin> set hs) rs"
  have subs: "subscribers w = left"
    by (simp add: w_def left_def subscribers_invoke_all subscribers_subscribe_all new_observable_def)
  from forEach_all_return [of code e "subscribers w" w, OF assms] subs
  have c: "calls (emit code e w) = map (\<lambda>s. (s, e)) left" and o: "outcome (emit code e w) = Normal"
    by (simp_all add: emit_def)
  have gone: "\<forall>s. Unsubscribe s \<in> set hs \<longrightarrow> s \<notin> fst ` set (calls (emit code e w))"
    by (auto simp: c left_def)
  have once: "distinct rs \<longrightarrow> (\<forall>s\<in>set rs. Unsubscribe s \<notin> set hs \<longrightarrow>
      count_list (calls (emit code e w)) (s, e) = 1)"
  proof (intro impI ballI)
    fix s assume d: "distinct rs" and s: "s \<in> set rs" "Unsubscribe s \<notin> set hs"
    from d have "distinct (map (\<lambda>s. (s, e)) left)"
      by (simp add: left_def distinct_map inj_on_def)
    moreover from s have "(s, e) \<in> set (map (\<lambda>s. (s, e)) left)" by (auto simp: left_def)
    ultimately show "count_list (calls (emit code e w)) (s, e) = 1"
      by (simp add: c count_list_distinct)
  qed
  from c o gone once show ?thesis unfolding w_def left_def by blast
qed

text \<open>Three subscribers, the second unsubscribed before the publish.\<close>

theorem emit_reaches_remaining_subscribers_witness:
  "calls (emit returns (7::nat) (fold invoke [Unsubscribe 1] (snd (subscribe_all [0, 1, 2] (new_observable ())))))
     = [(0, 7), (2, 7)]"
proof -
  have h: "\<forall>s w. fst ((returns :: (nat, unit) subscriber_code) s 7 w) = Normal"
    by (simp add: returns_def)
  from emit_reaches_remaining_subscribers [of returns "7::nat" "[Unsubscribe 1]" "[0, 1, 2]" "()", OF h]
  show ?thesis by simp
qed

subsection \<open>Claim C2: a subscriber that throws\<close>

text \<open>
  Claim C2 (as written): a callback that raises does not prevent the remaining
  callbacks from being invoked with the same event.

  \<^verbatim>\<open>emit\<close> has no \<^verbatim>\<open>try\<close>: with two subscribers of which the first throws, the
  second is still subscribed and is not called, and \<^verbatim>\<open>emit\<close> throws.
\<close>

theorem emit_throw_counterexample:
  "subscribers (snd (subscribe_all [0, 1] (new_observable ()))) = [0, 1]
   \<and> outcome (emit (throws_at 0) (7::nat) (snd (subscribe_all [0, 1] (new_observable ())))) = Throw ''boom''
   \<and> calls (emit (throws_at 0) (7::nat) (snd (subscribe_all [0, 1] (new_observable ())))) = [(0, 7)]"
  by (simp add: emit_def subscribe_def new_observable_def throws_at_def)

text \<open>
  Claim C2 (amended): when the subscribers registered before \<open>s\<close> return and \<open>s\<close>
  throws \<open>x\<close>, \<^verbatim>\<open>emit(e)\<close> throws \<open>x\<close> to its caller, and the calls made are
  those of the subscribers before \<open>s\<close> and of \<open>s\<close> itself, in registration order;
  the subscribers registered after \<open>s\<close> are not called.
\<close>

theorem emit_stops_at_first_throw:
  assumes "subscribers w = pre @ s # post"
      and "\<forall>r\<in>set pre. \<forall>w'. fst (code r e w') = Normal"
      and "\<forall>w'. fst (code s e w') = Throw x"
  shows "outcome (emit code e w) = Throw x
       \<and> calls (emit code e w) = map (\<lambda>r. (r, e)) (pre @ [s])"
proof -
  from forEach_append_return [of pre code e "s # post" w, OF assms(2)] obtain w' where
    split: "forEach code (pre @ s # post) e w =
      (forEach code (s # post) e w')\<lparr>calls := map (\<lambda>r. (r, e)) pre @ calls (forEach code (s # post) e w')\<rparr>"
    by blast
  obtain c w'' where step: "code s e w' = (c, w'')" by (cases "code s e w'")
  with assms(3) have "c = Throw x" by (metis fst_conv)
  with step have "forEach code (s # post) e w' = \<lparr>outcome = Throw x, after = w'', calls = [(s, e)]\<rparr>"
    by simp
  with split assms(1) show ?thesis by (simp add: emit_def)
qed

text \<open>Three subscribers, the second throws.\<close>

theorem emit_stops_at_first_throw_witness:
  "outcome (emit (throws_at 1) (7::nat) (snd (subscribe_all [0, 1, 2] (new_observable ())))) = Throw ''boom''
   \<and> calls (emit (throws_at 1) (7::nat) (snd (subscribe_all [0, 1, 2] (new_observable ())))) = [(0, 7), (1, 7)]"
proof -
  have a: "subscribers (snd (subscribe_all [0, 1, 2] (new_observable ()))) = [0] @ 1 # [2]"
    by (simp add: subscribe_def new_observable_def)
  have b: "\<forall>r\<in>set [0]. \<forall>w'. fst ((throws_at 1 :: (nat, unit) subscriber_code) r 7 w') = Normal"
    by (simp add: throws_at_def)
  have c: "\<forall>w'. fst ((throws_at 1 :: (nat, unit) subscriber_code) 1 7 w') = Throw ''boom''"
    by (simp add: throws_at_def)
  from emit_stops_at_first_throw [where code = "throws_at 1" and e = "7::nat" and pre = "[0]"
      and s = 1 and post = "[2]" and x = "''boom''", OF a b c] show ?thesis by simp
qed

subsection \<open>Claim C3: unsubscribing, also during a publish\<close>




subsection \<open>Claim C4: invoking an unsubscribe closure again\<close>





section \<open>Properties of the server\<close>

subsection \<open>Writing to streams and the invariant\<close>

lemma res_write_fields:
  "length (connections (res_write k c sv)) = length (connections sv)"
  "minted (res_write k c sv) = minted sv"
  "published (res_write k c sv) = published sv"
  by (simp_all add: res_write_def)

lemma res_write_nth:
  "j < length (connections sv) \<Longrightarrow>
   connections (res_write k c sv) ! j =
     (if j = k then (connections sv ! j)\<lparr>res_chunks := res_chunks (connections sv ! j) @ [c]\<rparr>
      else connections sv ! j)"
  by (simp add: res_write_def)

lemma sse_subscriber_fields:
  "fst (sse_subscriber k e w) = Normal"
  "subscribers (snd (sse_subscriber k e w)) = subscribers w"
  "length (connections (ext (snd (sse_subscriber k e w)))) = length (connections (ext w))"
  "minted (ext (snd (sse_subscriber k e w))) = minted (ext w)"
  "published (ext (snd (sse_subscriber k e w))) = published (ext w)"
  by (simp_all add: sse_subscriber_def res_write_fields)

lemma sse_subscriber_nth:
  "j < length (connections (ext w)) \<Longrightarrow>
   connections (ext (snd (sse_subscriber k e w))) ! j =
     (if j = k then add_frame e (connections (ext w) ! j) else connections (ext w) ! j)"
  by (simp add: sse_subscriber_def res_write_nth res_write_fields add_frame_def frame_def)

lemma forEach_sse_fields:
  "outcome (forEach sse_subscriber ss e w) = Normal
   \<and> subscribers (after (forEach sse_subscriber ss e w)) = subscribers w
   \<and> length (connections (ext (after (forEach sse_subscriber ss e w)))) = length (connections (ext w))
   \<and> minted (ext (after (forEach sse_subscriber ss e w))) = minted (ext w)
   \<and> published (ext (after (forEach sse_subscriber ss e w))) = published (ext w)"
proof (induction ss arbitrary: w)
  case Nil
  show ?case by simp
next
  case (Cons s ss)
  obtain w' where step: "sse_subscriber s e w = (Normal, w')"
    by (simp add: sse_subscriber_def)
  from sse_subscriber_fields [of s e w] step
  have "subscribers w' = subscribers w"
       "length (connections (ext w')) = length (connections (ext w))"
       "minted (ext w') = minted (ext w)" "published (ext w') = published (ext w)"
    by simp_all
  with Cons.IH [of w'] step show ?case by (simp add: Let_def)
qed

lemma forEach_sse_nth:
  assumes "distinct ss" and "j < length (connections (ext w))"
  shows "connections (ext (after (forEach sse_subscriber ss e w))) ! j =
     (if j \<in> set ss then add_frame e (connections (ext w) ! j) else connections (ext w) ! j)"
  using assms
proof (induction ss arbitrary: w)
  case Nil
  show ?case by simp
next
  case (Cons s ss)
  obtain w' where step: "sse_subscriber s e w = (Normal, w')"
    by (simp add: sse_subscriber_def)
  from sse_subscriber_fields(3) [of s e w] step
  have len: "length (connections (ext w')) = length (connections (ext w))" by simp
  from sse_subscriber_nth [OF Cons.prems(2), of s e] step
  have here: "connections (ext w') ! j =
      (if j = s then add_frame e (connections (ext w) ! j) else connections (ext w) ! j)"
    by simp
  from Cons.prems have "distinct ss" and fresh: "s \<notin> set ss" by simp_all
  from Cons.IH [OF \<open>distinct ss\<close>, of w'] Cons.prems(2) len
  have "connections (ext (after (forEach sse_subscriber ss e w'))) ! j =
      (if j \<in> set ss then add_frame e (connections (ext w') ! j) else connections (ext w') ! j)"
    by simp
  with here fresh step show ?case by (auto simp: Let_def)
qed

lemma events_emit_fields:
  "subscribers (events_emit e w) = subscribers w"
  "length (connections (ext (events_emit e w))) = length (connections (ext w))"
  "minted (ext (events_emit e w)) = minted (ext w)"
  "published (ext (events_emit e w)) = published (ext w) @ [e]"
  using forEach_sse_fields [of "subscribers w" e w]
  by (simp_all add: events_emit_def emit_def Let_def)

lemma events_emit_nth:
  assumes "distinct (subscribers w)" and "j < length (connections (ext w))"
  shows "connections (ext (events_emit e w)) ! j =
     (if j \<in> set (subscribers w) then add_frame e (connections (ext w) ! j)
      else connections (ext w) ! j)"
  using forEach_sse_nth [OF assms, of e]
  by (simp add: events_emit_def emit_def Let_def)

lemma add_frame_fields:
  "result_data (add_frame e c) = result_data c"
  "unsubscribe (add_frame e c) = unsubscribe c"
  "res_headers (add_frame e c) = res_headers c"
  "res_chunks (add_frame e c) = res_chunks c @ frame e"
  "req_closed (add_frame e c) = req_closed c"
  by (simp_all add: add_frame_def)

lemma events_emit_keeps:
  assumes "distinct (subscribers w)" and "j < length (connections (ext w))"
  shows "result_data (connections (ext (events_emit e w)) ! j) = result_data (connections (ext w) ! j)"
    and "unsubscribe (connections (ext (events_emit e w)) ! j) = unsubscribe (connections (ext w) ! j)"
    and "req_closed (connections (ext (events_emit e w)) ! j) = req_closed (connections (ext w) ! j)"
  using events_emit_nth [OF assms, of e] by (simp_all add: add_frame_fields)

lemma consistent_events_emit:
  assumes "consistent w"
  shows "consistent (events_emit e w)"
  using assms events_emit_keeps(2) [of w _ e]
  by (simp add: consistent_def events_emit_fields)

lemma invoke_fields:
  "ext (invoke h w) = ext w"
  "subscribers (invoke (Unsubscribe s) w) = filter (\<lambda>r. r \<noteq> s) (subscribers w)"
  by (cases h) simp_all

lemma consistent_invoke:
  assumes "consistent w"
  shows "consistent (invoke h w)"
proof -
  obtain s where "h = Unsubscribe s" by (cases h)
  with assms show ?thesis by (simp add: consistent_def)
qed

lemma consistent_boot: "consistent boot"
  by (simp add: consistent_def boot_def new_observable_def)

lemma get_chat_sse_accept:
  assumes "userSchema (Some query) = Some u"
  shows "fst (get_chat_sse query w) = None"
    and "subscribers (snd (get_chat_sse query w)) = subscribers w @ [length (connections (ext w))]"
    and "connections (ext (snd (get_chat_sse query w))) = connections (ext w) @
        [\<lparr>result_data = u, unsubscribe = Unsubscribe (length (connections (ext w))),
          res_headers = [(''Cache-Control'', ''no-store''),
                         (''Content-Type'', ''text/event-stream; charset=utf-8''),
                         (''Connection'', ''keep-alive'')],
          res_chunks = [], req_closed = False\<rparr>]"
    and "minted (ext (snd (get_chat_sse query w))) = minted (ext w)"
    and "published (ext (snd (get_chat_sse query w))) = published (ext w)"
  using assms by (simp_all add: get_chat_sse_def subscribe_def Let_def)

lemma get_chat_sse_reject:
  assumes "userSchema (Some query) = None"
  shows "get_chat_sse query w = (Some \<lparr>status = 400, payload = Diagnostics\<rparr>, w)"
  using assms by (simp add: get_chat_sse_def)

lemma consistent_get_chat_sse:
  assumes "consistent w"
  shows "consistent (snd (get_chat_sse query w))"
proof (cases "userSchema (Some query)")
  case None
  with assms show ?thesis by (simp add: get_chat_sse_reject)
next
  case (Some u)
  from assms have d: "distinct (subscribers w)"
    and b: "\<forall>k\<in>set (subscribers w). k < length (connections (ext w))"
    and h: "\<forall>k < length (connections (ext w)). unsubscribe (connections (ext w) ! k) = Unsubscribe k"
    by (simp_all add: consistent_def)
  from b have "length (connections (ext w)) \<notin> set (subscribers w)" by auto
  with d b h show ?thesis
    by (auto simp: consistent_def get_chat_sse_accept [OF Some] nth_append less_Suc_eq)
qed

lemma consistent_minted:
  "consistent (w\<lparr>ext := (ext w)\<lparr>minted := n\<rparr>\<rparr>) = consistent w"
  by (simp add: consistent_def)

lemma consistent_post_chat_register:
  assumes "consistent w"
  shows "consistent (snd (post_chat_register v4 body w))"
  using assms
  by (auto simp: post_chat_register_def Let_def consistent_minted consistent_events_emit
           split: option.splits)

lemma consistent_post_chat_message:
  assumes "consistent w"
  shows "consistent (snd (post_chat_message v4 body w))"
  using assms
  by (auto simp: post_chat_message_def Let_def consistent_minted consistent_events_emit
           split: option.splits)

lemma consistent_on_close:
  assumes "consistent w"
  shows "consistent (on_close k w)"
  using assms by (simp add: on_close_def Let_def consistent_events_emit consistent_invoke)

lemma mark_closed_fields:
  "subscribers (mark_closed k w) = subscribers w"
  "length (connections (ext (mark_closed k w))) = length (connections (ext w))"
  "minted (ext (mark_closed k w)) = minted (ext w)"
  "published (ext (mark_closed k w)) = published (ext w)"
  by (simp_all add: mark_closed_def)

lemma mark_closed_nth:
  assumes "j < length (connections (ext w))"
  shows "result_data (connections (ext (mark_closed k w)) ! j) = result_data (connections (ext w) ! j)"
    and "unsubscribe (connections (ext (mark_closed k w)) ! j) = unsubscribe (connections (ext w) ! j)"
    and "res_chunks (connections (ext (mark_closed k w)) ! j) = res_chunks (connections (ext w) ! j)"
    and "req_closed (connections (ext (mark_closed k w)) ! j)
           = (j = k \<or> req_closed (connections (ext w) ! j))"
proof -
  have "connections (ext (mark_closed k w)) ! j =
      (if j = k then (connections (ext w) ! j)\<lparr>req_closed := True\<rparr> else connections (ext w) ! j)"
  proof (cases "k < length (connections (ext w))")
    case True
    then show ?thesis by (auto simp: mark_closed_def nth_list_update)
  next
    case False
    with assms show ?thesis by (simp add: mark_closed_def list_update_beyond)
  qed
  then show
    "result_data (connections (ext (mark_closed k w)) ! j) = result_data (connections (ext w) ! j)"
    "unsubscribe (connections (ext (mark_closed k w)) ! j) = unsubscribe (connections (ext w) ! j)"
    "res_chunks (connections (ext (mark_closed k w)) ! j) = res_chunks (connections (ext w) ! j)"
    "req_closed (connections (ext (mark_closed k w)) ! j)
           = (j = k \<or> req_closed (connections (ext w) ! j))"
    by simp_all
qed

lemma consistent_mark_closed:
  assumes "consistent w"
  shows "consistent (mark_closed k w)"
  using assms by (simp add: consistent_def mark_closed_fields mark_closed_nth)

lemma consistent_transport_close:
  assumes "consistent w"
  shows "consistent (transport_close k w)"
  using assms by (simp add: transport_close_def consistent_on_close consistent_mark_closed)

lemma consistent_serve:
  assumes "consistent w"
  shows "consistent (serve v4 r w)"
  using assms
  by (cases r) (simp_all add: consistent_get_chat_sse consistent_post_chat_register
       consistent_post_chat_message consistent_transport_close)

lemma consistent_fold_serve:
  assumes "consistent w"
  shows "consistent (fold (serve v4) rs w)"
  using assms by (induction rs arbitrary: w) (simp_all add: consistent_serve)

subsection \<open>Claim C5: requests that fail validation\<close>


lemma userSchema_object:
  "map_of kvs ''id'' = Some (JString i) \<Longrightarrow> map_of kvs ''name'' = Some (JString n) \<Longrightarrow>
   userSchema (Some (JObject kvs)) = Some \<lparr>id' = i, name = n\<rparr>"
  by (simp add: userSchema_def)

lemma stringify_user_object:
  \<open>stringify (user_object u) = ''{"id":'' @ quote (id' u) @ '',"name":'' @ quote (name u) @ ''}''\<close>
  by (simp add: user_object_def quote_def escape_def)

lemma userSchema_alice: "userSchema (Some alice) = Some \<lparr>id' = ''u1'', name = ''Alice''\<rparr>"
  by (simp add: alice_def userSchema_def)

lemma userSchema_bob: "userSchema (Some bob) = Some \<lparr>id' = ''u2'', name = ''Bob''\<rparr>"
  by (simp add: bob_def userSchema_def)




subsection \<open>Claim C6: the frame on the wire\<close>

lemma quote_keys:
  \<open>quote ''discriminant'' = ''"discriminant"''\<close>
  \<open>quote ''data'' = ''"data"''\<close>
  \<open>quote ''UserSignedIn'' = ''"UserSignedIn"''\<close>
  \<open>quote ''UserMessage'' = ''"UserMessage"''\<close>
  \<open>quote ''UserSignedOut'' = ''"UserSignedOut"''\<close>
  by (simp_all add: quote_def escape_def)

lemma frame_signed_in_alice:
  \<open>frame (UserSignedIn \<lparr>id' = ''u1'', name = ''Alice''\<rparr>) =
     [''event: message\<newline>'',
      ''data: {"discriminant":"UserSignedIn","data":{"user":{"id":"u1","name":"Alice"}}}\<newline>\<newline>'']\<close>
  by (simp add: frame_def user_object_def quote_def escape_def)

lemma one_stream:
  "subscribers (snd (get_chat_sse alice boot)) = [0]"
  "length (connections (ext (snd (get_chat_sse alice boot)))) = 1"
  "res_chunks (connections (ext (snd (get_chat_sse alice boot))) ! 0) = []"
  by (simp_all add: get_chat_sse_accept [OF userSchema_alice] boot_def new_observable_def)

text \<open>
  Claim C6 (as written): every event is written as the two-line frame, and the
  discriminant on the wire is one of \<^verbatim>\<open>IdentityJoined\<close>, \<^verbatim>\<open>MessagePosted\<close>,
  \<^verbatim>\<open>IdentityLeft\<close>.

  The frame is as claimed, the strings are not: what one subscribed stream receives
  for the registration of Alice carries the discriminant \<^verbatim>\<open>UserSignedIn\<close>.
\<close>

theorem wire_discriminant_counterexample:
  \<open>res_chunks (connections (ext (events_emit (UserSignedIn \<lparr>id' = ''u1'', name = ''Alice''\<rparr>)
       (serve v4_sample (GetChatSse alice) boot))) ! 0) =
     [''event: message\<newline>'',
      ''data: {"discriminant":"UserSignedIn","data":{"user":{"id":"u1","name":"Alice"}}}\<newline>\<newline>'']\<close>
  by (simp add: events_emit_nth one_stream add_frame_fields frame_signed_in_alice)

text \<open>
  Claim C6 (amended): the subscriber of a connection writes every event as the chunk
  \<^verbatim>\<open>event: message\n\<close> followed by the chunk \<^verbatim>\<open>data: <json>\n\n\<close>, where the
  JSON text is that of an object with the properties \<^verbatim>\<open>discriminant\<close> and
  \<^verbatim>\<open>data\<close>, in this order, and the discriminant is one of \<^verbatim>\<open>UserSignedIn\<close>,
  \<^verbatim>\<open>UserMessage\<close>, \<^verbatim>\<open>UserSignedOut\<close>.
\<close>

theorem wire_frame:
  \<open>(k < length (connections (ext w)) \<longrightarrow>
      res_chunks (connections (ext (snd (sse_subscriber k event w))) ! k) =
        res_chunks (connections (ext w) ! k) @
          [''event: message\<newline>'', ''data: '' @ stringify (event_object event) @ ''\<newline>\<newline>''])
   \<and> (\<exists>d dat. d \<in> {''UserSignedIn'', ''UserMessage'', ''UserSignedOut''}
        \<and> event_object event = JObject [(''discriminant'', JString d), (''data'', dat)]
        \<and> stringify (event_object event) =
            ''{"discriminant":"'' @ d @ ''","data":'' @ stringify dat @ ''}'')\<close>
proof -
  have chunks: "k < length (connections (ext w)) \<longrightarrow>
      res_chunks (connections (ext (snd (sse_subscriber k event w))) ! k) =
        res_chunks (connections (ext w) ! k) @
          [''event: message\<newline>'', ''data: '' @ stringify (event_object event) @ ''\<newline>\<newline>'']"
    by (simp add: sse_subscriber_nth add_frame_fields frame_def)
  have shape: \<open>\<exists>d dat. d \<in> {''UserSignedIn'', ''UserMessage'', ''UserSignedOut''}
        \<and> event_object event = JObject [(''discriminant'', JString d), (''data'', dat)]
        \<and> stringify (event_object event) =
            ''{"discriminant":"'' @ d @ ''","data":'' @ stringify dat @ ''}''\<close>
  proof (cases event)
    case (UserSignedIn u)
    show ?thesis
      by (intro exI [of _ "''UserSignedIn''"] exI [of _ "JObject [(''user'', user_object u)]"])
         (simp add: UserSignedIn quote_keys)
  next
    case (UserMessage i u m)
    show ?thesis
      by (intro exI [of _ "''UserMessage''"]
            exI [of _ "JObject [(''message'', JString m), (''user'', user_object u), (''id'', JString i)]"])
         (simp add: UserMessage quote_keys)
  next
    case (UserSignedOut u)
    show ?thesis
      by (intro exI [of _ "''UserSignedOut''"] exI [of _ "JObject [(''user'', user_object u)]"])
         (simp add: UserSignedOut quote_keys)
  qed
  from chunks shape show ?thesis by blast
qed

text \<open>The subscriber of the only connection is called with the registration of Alice.\<close>

theorem wire_frame_witness:
  \<open>res_chunks (connections (ext (snd (sse_subscriber 0 (UserSignedIn \<lparr>id' = ''u1'', name = ''Alice''\<rparr>)
       (serve v4_sample (GetChatSse alice) boot)))) ! 0) =
     [''event: message\<newline>'',
      ''data: {"discriminant":"UserSignedIn","data":{"user":{"id":"u1","name":"Alice"}}}\<newline>\<newline>'']\<close>
  using wire_frame [of 0 "serve v4_sample (GetChatSse alice) boot"
      "UserSignedIn \<lparr>id' = ''u1'', name = ''Alice''\<rparr>"]
    frame_signed_in_alice
  by (simp add: one_stream frame_def)

subsection \<open>Claim C7: the close of a stream\<close>

lemma events_emit_consistent_keeps:
  assumes "consistent w" and "j < length (connections (ext w))"
  shows "result_data (connections (ext (events_emit e w)) ! j) = result_data (connections (ext w) ! j)"
    and "req_closed (connections (ext (events_emit e w)) ! j) = req_closed (connections (ext w) ! j)"
  using assms events_emit_keeps(1,3) [of w j e] by (simp_all add: consistent_def)

lemma events_emit_chunks:
  assumes "consistent w" and "j < length (connections (ext w))"
  shows "res_chunks (connections (ext (events_emit e w)) ! j) =
     (if j \<in> set (subscribers w) then res_chunks (connections (ext w) ! j) @ frame e
      else res_chunks (connections (ext w) ! j))"
  using assms events_emit_nth [of w j e] by (simp add: consistent_def add_frame_fields)

lemma on_close_effect:
  assumes "consistent w" and "k < length (connections (ext w))"
      and "result_data (connections (ext w) ! k) = u"
  shows "published (ext (on_close k w)) = published (ext w) @ [UserSignedOut u]"
    and "subscribers (on_close k w) = filter (\<lambda>s. s \<noteq> k) (subscribers w)"
    and "length (connections (ext (on_close k w))) = length (connections (ext w))"
    and "\<And>j. j < length (connections (ext w)) \<Longrightarrow>
          req_closed (connections (ext (on_close k w)) ! j) = req_closed (connections (ext w) ! j)"
    and "\<And>j. j < length (connections (ext w)) \<Longrightarrow>
          res_chunks (connections (ext (on_close k w)) ! j) =
            (if j \<in> set (subscribers w) \<and> j \<noteq> k
             then res_chunks (connections (ext w) ! j) @ frame (UserSignedOut u)
             else res_chunks (connections (ext w) ! j))"
proof -
  from assms(1,2) have h: "unsubscribe (connections (ext w) ! k) = Unsubscribe k"
    by (simp add: consistent_def)
  have c: "consistent (invoke (Unsubscribe k) w)" by (rule consistent_invoke [OF assms(1)])
  have eq: "on_close k w = events_emit (UserSignedOut u) (invoke (Unsubscribe k) w)"
    using assms(2,3) h by (simp add: on_close_def Let_def)
  show "published (ext (on_close k w)) = published (ext w) @ [UserSignedOut u]"
    by (simp add: eq events_emit_fields)
  show "subscribers (on_close k w) = filter (\<lambda>s. s \<noteq> k) (subscribers w)"
    by (simp add: eq events_emit_fields)
  show "length (connections (ext (on_close k w))) = length (connections (ext w))"
    by (simp add: eq events_emit_fields)
  show "\<And>j. j < length (connections (ext w)) \<Longrightarrow>
          req_closed (connections (ext (on_close k w)) ! j) = req_closed (connections (ext w) ! j)"
    using events_emit_consistent_keeps(2) [OF c, of _ "UserSignedOut u"] by (simp add: eq)
  show "\<And>j. j < length (connections (ext w)) \<Longrightarrow>
          res_chunks (connections (ext (on_close k w)) ! j) =
            (if j \<in> set (subscribers w) \<and> j \<noteq> k
             then res_chunks (connections (ext w) ! j) @ frame (UserSignedOut u)
             else res_chunks (connections (ext w) ! j))"
    using events_emit_chunks [OF c, of _ "UserSignedOut u"] by (simp add: eq)
qed

lemma transport_close_effect:
  assumes "consistent w" and "k < length (connections (ext w))"
      and "result_data (connections (ext w) ! k) = u"
      and "\<not> req_closed (connections (ext w) ! k)"
  shows "published (ext (transport_close k w)) = published (ext w) @ [UserSignedOut u]"
    and "subscribers (transport_close k w) = filter (\<lambda>s. s \<noteq> k) (subscribers w)"
    and "length (connections (ext (transport_close k w))) = length (connections (ext w))"
    and "req_closed (connections (ext (transport_close k w)) ! k)"
    and "\<And>j. j < length (connections (ext w)) \<Longrightarrow>
          res_chunks (connections (ext (transport_close k w)) ! j) =
            (if j \<in> set (subscribers w) \<and> j \<noteq> k
             then res_chunks (connections (ext w) ! j) @ frame (UserSignedOut u)
             else res_chunks (connections (ext w) ! j))"
proof -
  have eq: "transport_close k w = on_close k (mark_closed k w)"
    using assms(2,4) by (simp add: transport_close_def)
  have c: "consistent (mark_closed k w)" by (rule consistent_mark_closed [OF assms(1)])
  have k: "k < length (connections (ext (mark_closed k w)))"
    using assms(2) by (simp add: mark_closed_fields)
  have u: "result_data (connections (ext (mark_closed k w)) ! k) = u"
    using assms(2,3) by (simp add: mark_closed_nth)
  note fx = on_close_effect [OF c k u]
  show "published (ext (transport_close k w)) = published (ext w) @ [UserSignedOut u]"
    using fx(1) by (simp add: eq mark_closed_fields)
  show "subscribers (transport_close k w) = filter (\<lambda>s. s \<noteq> k) (subscribers w)"
    using fx(2) by (simp add: eq mark_closed_fields)
  show "length (connections (ext (transport_close k w))) = length (connections (ext w))"
    using fx(3) by (simp add: eq mark_closed_fields)
  show "req_closed (connections (ext (transport_close k w)) ! k)"
    using fx(4) [OF k] assms(2) by (simp add: eq mark_closed_nth)
  show "\<And>j. j < length (connections (ext w)) \<Longrightarrow>
          res_chunks (connections (ext (transport_close k w)) ! j) =
            (if j \<in> set (subscribers w) \<and> j \<noteq> k
             then res_chunks (connections (ext w) ! j) @ frame (UserSignedOut u)
             else res_chunks (connections (ext w) ! j))"
    using fx(5) by (simp add: eq mark_closed_fields mark_closed_nth)
qed

lemma transport_close_keeps:
  assumes "consistent w" and "k < length (connections (ext w))"
  shows "k < length (connections (ext (transport_close j w)))
       \<and> result_data (connections (ext (transport_close j w)) ! k) = result_data (connections (ext w) ! k)
       \<and> req_closed (connections (ext (transport_close j w)) ! k)
           = (req_closed (connections (ext w) ! k) \<or> j = k)"
proof (cases "j < length (connections (ext w)) \<and> \<not> req_closed (connections (ext w) ! j)")
  case False
  with assms(2) show ?thesis by (auto simp: transport_close_def)
next
  case True
  then have eq: "transport_close j w = on_close j (mark_closed j w)"
    by (simp add: transport_close_def)
  define h where "h = unsubscribe (connections (ext (mark_closed j w)) ! j)"
  define e where "e = UserSignedOut (result_data (connections (ext (mark_closed j w)) ! j))"
  have c: "consistent (invoke h (mark_closed j w))"
    by (rule consistent_invoke [OF consistent_mark_closed [OF assms(1)]])
  have k: "k < length (connections (ext (invoke h (mark_closed j w))))"
    using assms(2) by (simp add: invoke_fields mark_closed_fields)
  have unfolded: "on_close j (mark_closed j w) = events_emit e (invoke h (mark_closed j w))"
    using True by (simp add: on_close_def Let_def mark_closed_fields h_def e_def)
  from events_emit_consistent_keeps [OF c k, of e] assms(2)
  show ?thesis
    by (auto simp: eq unfolded events_emit_fields invoke_fields mark_closed_fields mark_closed_nth)
qed

lemma serve_keeps:
  assumes "consistent w" and "k < length (connections (ext w))"
  shows "k < length (connections (ext (serve v4 r w)))
       \<and> result_data (connections (ext (serve v4 r w)) ! k) = result_data (connections (ext w) ! k)
       \<and> req_closed (connections (ext (serve v4 r w)) ! k)
           = (req_closed (connections (ext w) ! k) \<or> r = Close k)"
proof (cases r)
  case (GetChatSse query)
  show ?thesis
  proof (cases "userSchema (Some query)")
    case None
    with assms(2) show ?thesis by (simp add: GetChatSse get_chat_sse_reject)
  next
    case (Some u)
    with assms(2) show ?thesis by (simp add: GetChatSse get_chat_sse_accept nth_append)
  qed
next
  case (PostChatRegister body)
  have c: "consistent (w\<lparr>ext := (ext w)\<lparr>minted := Suc (minted (ext w))\<rparr>\<rparr>)"
    using assms(1) by (simp add: consistent_minted)
  from events_emit_consistent_keeps [OF c, of k] assms(2) show ?thesis
    by (simp add: PostChatRegister post_chat_register_def Let_def events_emit_fields
          split: option.splits)
next
  case (PostChatMessage body)
  have c: "consistent (w\<lparr>ext := (ext w)\<lparr>minted := Suc (minted (ext w))\<rparr>\<rparr>)"
    using assms(1) by (simp add: consistent_minted)
  from events_emit_consistent_keeps [OF c, of k] assms(2) show ?thesis
    by (simp add: PostChatMessage post_chat_message_def Let_def events_emit_fields
          split: option.splits prod.splits)
next
  case (Close j)
  from transport_close_keeps [OF assms, of j] show ?thesis by (auto simp: Close)
qed

lemma fold_serve_keeps:
  assumes "consistent w" and "k < length (connections (ext w))"
  shows "k < length (connections (ext (fold (serve v4) rs w)))
       \<and> result_data (connections (ext (fold (serve v4) rs w)) ! k) = result_data (connections (ext w) ! k)
       \<and> req_closed (connections (ext (fold (serve v4) rs w)) ! k)
           = (req_closed (connections (ext w) ! k) \<or> Close k \<in> set rs)"
  using assms
proof (induction rs arbitrary: w)
  case Nil
  then show ?case by simp
next
  case (Cons r rs)
  from serve_keeps [OF Cons.prems, of v4 r]
  have k: "k < length (connections (ext (serve v4 r w)))"
   and d: "result_data (connections (ext (serve v4 r w)) ! k) = result_data (connections (ext w) ! k)"
   and q: "req_closed (connections (ext (serve v4 r w)) ! k)
           = (req_closed (connections (ext w) ! k) \<or> r = Close k)"
    by simp_all
  from Cons.IH [OF consistent_serve [OF Cons.prems(1)] k] d q show ?case by auto
qed

lemma frame_signed_out:
  \<open>frame (UserSignedOut u) =
     [''event: message\<newline>'',
      ''data: {"discriminant":"UserSignedOut","data":{"user":{"id":'' @ quote (id' u) @
      '',"name":'' @ quote (name u) @ ''}}}\<newline>\<newline>'']\<close>
  by (simp add: frame_def user_object_def) (simp add: quote_def escape_def)

text \<open>
  Claim C7: let a stream request with a valid identity \<open>u\<close> be accepted in a
  consistent state, as connection \<open>k\<close>, and let any requests \<open>rs\<close> follow in which
  the transport of \<open>k\<close> does not close. The first close signal of connection \<open>k\<close>
  then removes the subscriber of \<open>k\<close> and publishes exactly one
  \<^verbatim>\<open>UserSignedOut\<close> event with the identity \<open>u\<close>: every other subscribed stream
  receives the event as one frame, whose text names the discriminant and \<open>u\<close>, and
  the stream \<open>k\<close> receives nothing. After that, whatever requests \<open>rs'\<close> follow,
  one more close signal of connection \<open>k\<close> leaves the whole state as it is: nothing
  is unsubscribed and nothing is published.
\<close>

theorem close_publishes_signed_out:
  assumes "consistent w0" and "userSchema (Some query) = Some u"
      and "Close (length (connections (ext w0))) \<notin> set rs"
  shows \<open>let k = length (connections (ext w0));
             w = fold (serve v4) rs (snd (get_chat_sse query w0));
             w' = serve v4 (Close k) w
         in published (ext w') = published (ext w) @ [UserSignedOut u]
          \<and> subscribers w' = filter (\<lambda>s. s \<noteq> k) (subscribers w)
          \<and> (\<forall>j\<in>set (subscribers w). j \<noteq> k \<longrightarrow>
               res_chunks (connections (ext w') ! j) =
                 res_chunks (connections (ext w) ! j) @ frame (UserSignedOut u))
          \<and> frame (UserSignedOut u) =
               [''event: message\<newline>'',
                ''data: {"discriminant":"UserSignedOut","data":{"user":{"id":'' @ quote (id' u) @
                '',"name":'' @ quote (name u) @ ''}}}\<newline>\<newline>'']
          \<and> res_chunks (connections (ext w') ! k) = res_chunks (connections (ext w) ! k)
          \<and> serve v4 (Close k) (fold (serve v4) rs' w') = fold (serve v4) rs' w'\<close>
proof -
  define k where "k = length (connections (ext w0))"
  define w1 where "w1 = snd (get_chat_sse query w0)"
  define w where "w = fold (serve v4) rs w1"
  define w' where "w' = serve v4 (Close k) w"
  define w'' where "w'' = fold (serve v4) rs' w'"
  have c1: "consistent w1" unfolding w1_def by (rule consistent_get_chat_sse [OF assms(1)])
  have k1: "k < length (connections (ext w1))"
   and u1: "result_data (connections (ext w1) ! k) = u"
   and o1: "\<not> req_closed (connections (ext w1) ! k)"
    by (simp_all add: w1_def k_def get_chat_sse_accept [OF assms(2)])
  have c: "consistent w" unfolding w_def by (rule consistent_fold_serve [OF c1])
  from fold_serve_keeps [OF c1 k1, of v4 rs] u1 o1 assms(3)
  have k: "k < length (connections (ext w))" and u: "result_data (connections (ext w) ! k) = u"
   and o: "\<not> req_closed (connections (ext w) ! k)"
    by (simp_all add: w_def k_def)
  have w'_eq: "w' = transport_close k w" by (simp add: w'_def)
  note first = transport_close_effect [OF c k u o]
  have c': "consistent w'" unfolding w'_eq by (rule consistent_transport_close [OF c])
  from first(3,4) k have k': "k < length (connections (ext w'))"
    and closed': "req_closed (connections (ext w') ! k)"
    by (simp_all add: w'_eq)
  from fold_serve_keeps [OF c' k', of v4 rs'] closed'
  have "req_closed (connections (ext w'') ! k)" by (simp add: w''_def)
  then have last: "serve v4 (Close k) w'' = w''" by (simp add: transport_close_def)
  from c have bound: "\<forall>j\<in>set (subscribers w). j < length (connections (ext w))"
    by (simp add: consistent_def)
  have others: "\<forall>j\<in>set (subscribers w). j \<noteq> k \<longrightarrow>
      res_chunks (connections (ext w') ! j) =
        res_chunks (connections (ext w) ! j) @ frame (UserSignedOut u)"
    using first(5) bound by (simp add: w'_eq)
  have self: "res_chunks (connections (ext w') ! k) = res_chunks (connections (ext w) ! k)"
    using first(5) [OF k] by (simp add: w'_eq)
  have p: "published (ext w') = published (ext w) @ [UserSignedOut u]"
   and s: "subscribers w' = filter (\<lambda>s. s \<noteq> k) (subscribers w)"
    using first(1,2) by (simp_all add: w'_eq)
  from p s others self last frame_signed_out [of u] show ?thesis
    unfolding Let_def k_def [symmetric] w1_def [symmetric] w_def [symmetric] w'_def [symmetric]
      w''_def [symmetric]
    by blast
qed

text \<open>Alice and Bob have a stream each.\<close>

lemma two_streams:
  "subscribers (fold (serve v4) [GetChatSse bob] (snd (get_chat_sse alice boot))) = [0, 1]"
  "length (connections (ext (fold (serve v4) [GetChatSse bob] (snd (get_chat_sse alice boot))))) = 2"
  "res_chunks (connections (ext (fold (serve v4) [GetChatSse bob] (snd (get_chat_sse alice boot)))) ! 0) = []"
  "res_chunks (connections (ext (fold (serve v4) [GetChatSse bob] (snd (get_chat_sse alice boot)))) ! 1) = []"
  "published (ext (fold (serve v4) [GetChatSse bob] (snd (get_chat_sse alice boot)))) = []"
  "minted (ext (fold (serve v4) [GetChatSse bob] (snd (get_chat_sse alice boot)))) = 0"
  by (simp_all add: get_chat_sse_accept [OF userSchema_alice] get_chat_sse_accept [OF userSchema_bob]
        boot_def new_observable_def)

text \<open>
  The stream of Alice closes: Bob receives the frame, the stream of Alice nothing. Bob
  then posts a message, and a second close signal for the stream of Alice changes
  nothing.
\<close>

theorem close_publishes_signed_out_witness:
  \<open>published (ext (serve v4_sample (Close 0)
       (fold (serve v4_sample) [GetChatSse bob] (snd (get_chat_sse alice boot)))))
     = [UserSignedOut \<lparr>id' = ''u1'', name = ''Alice''\<rparr>]
   \<and> subscribers (serve v4_sample (Close 0)
       (fold (serve v4_sample) [GetChatSse bob] (snd (get_chat_sse alice boot)))) = [1]
   \<and> res_chunks (connections (ext (serve v4_sample (Close 0)
        (fold (serve v4_sample) [GetChatSse bob] (snd (get_chat_sse alice boot))))) ! 1)
     = [''event: message\<newline>'',
        ''data: {"discriminant":"UserSignedOut","data":{"user":{"id":"u1","name":"Alice"}}}\<newline>\<newline>'']
   \<and> res_chunks (connections (ext (serve v4_sample (Close 0)
        (fold (serve v4_sample) [GetChatSse bob] (snd (get_chat_sse alice boot))))) ! 0) = []
   \<and> serve v4_sample (Close 0)
        (fold (serve v4_sample) [PostChatMessage (JObject [(''user'', bob), (''message'', JString ''hi'')])]
          (serve v4_sample (Close 0)
            (fold (serve v4_sample) [GetChatSse bob] (snd (get_chat_sse alice boot)))))
     = fold (serve v4_sample) [PostChatMessage (JObject [(''user'', bob), (''message'', JString ''hi'')])]
          (serve v4_sample (Close 0)
            (fold (serve v4_sample) [GetChatSse bob] (snd (get_chat_sse alice boot))))\<close>
proof -
  have a: "Close (length (connections (ext boot))) \<notin> set [GetChatSse bob]" by simp
  from close_publishes_signed_out [OF consistent_boot userSchema_alice a, of v4_sample
      "[PostChatMessage (JObject [(''user'', bob), (''message'', JString ''hi'')])]"]
    two_streams [of v4_sample]
  show ?thesis
    by (simp add: Let_def boot_def new_observable_def del: fold_simps serve.simps)
       (simp add: quote_def escape_def)
qed

subsection \<open>Claim C8: registering\<close>

lemma inj_v4_sample: "inj v4_sample"
proof (rule injI)
  fix a b assume "v4_sample a = v4_sample b"
  then have "length (replicate a (CHR ''x'')) = length (replicate b (CHR ''x''))"
    by (simp add: v4_sample_def)
  then show "a = b" by simp
qed

lemma v4_sample_nonempty: "\<forall>i. v4_sample i \<noteq> []"
  by (simp add: v4_sample_def)

lemma frame_signed_in:
  \<open>frame (UserSignedIn u) =
     [''event: message\<newline>'',
      ''data: {"discriminant":"UserSignedIn","data":{"user":{"id":'' @ quote (id' u) @
      '',"name":'' @ quote (name u) @ ''}}}\<newline>\<newline>'']\<close>
  by (simp add: frame_def stringify_user_object) (simp add: quote_def escape_def)

lemma frame_user_message:
  \<open>frame (UserMessage mid u m) =
     [''event: message\<newline>'',
      ''data: {"discriminant":"UserMessage","data":{"message":'' @ quote m @
      '',"user":{"id":'' @ quote (id' u) @ '',"name":'' @ quote (name u) @ ''},"id":'' @ quote mid @
      ''}}\<newline>\<newline>'']\<close>
  by (simp add: frame_def stringify_user_object) (simp add: quote_def escape_def)

text \<open>
  Claim C8: a register request whose \<^verbatim>\<open>name\<close> is a string \<open>n\<close> is answered
  with status 200 and the JSON text of \<^verbatim>\<open>{id, name}\<close>, where the name is \<open>n\<close> and
  the id is the value of a new call of \<^verbatim>\<open>v4()\<close>; exactly one \<^verbatim>\<open>UserSignedIn\<close>
  event with that user is published, and every subscribed stream receives it as one
  frame, whose text names the discriminant, the id and the name. The id is not empty when \<^verbatim>\<open>v4()\<close> never returns the empty string, and
  differs from every value minted before when \<^verbatim>\<open>v4()\<close> never repeats a value.
\<close>

theorem register_publishes_signed_in:
  assumes "consistent w" and "map_of kvs ''name'' = Some (JString n)"
  shows \<open>let user = \<lparr>id' = v4 (minted (ext w)), name = n\<rparr>;
             r = post_chat_register v4 (JObject kvs) w
         in fst r = \<lparr>status = 200,
                      payload = Json (''{"id":'' @ quote (id' user) @ '',"name":'' @ quote n @ ''}'')\<rparr>
          \<and> published (ext (snd r)) = published (ext w) @ [UserSignedIn user]
          \<and> (\<forall>j\<in>set (subscribers w).
               res_chunks (connections (ext (snd r)) ! j) =
                 res_chunks (connections (ext w) ! j) @ frame (UserSignedIn user))
          \<and> frame (UserSignedIn user) =
               [''event: message\<newline>'',
                ''data: {"discriminant":"UserSignedIn","data":{"user":{"id":'' @
                quote (id' user) @ '',"name":'' @ quote n @ ''}}}\<newline>\<newline>'']
          \<and> minted (ext (snd r)) = Suc (minted (ext w))
          \<and> ((\<forall>i. v4 i \<noteq> []) \<longrightarrow> id' user \<noteq> [])
          \<and> (inj v4 \<longrightarrow> (\<forall>i<minted (ext w). v4 i \<noteq> id' user))\<close>
proof -
  define user where "user = \<lparr>id' = v4 (minted (ext w)), name = n\<rparr>"
  define w1 where "w1 = w\<lparr>ext := (ext w)\<lparr>minted := Suc (minted (ext w))\<rparr>\<rparr>"
  have r: "post_chat_register v4 (JObject kvs) w =
      (\<lparr>status = 200, payload = Json (stringify (user_object user))\<rparr>, events_emit (UserSignedIn user) w1)"
    using assms(2) by (simp add: post_chat_register_def signInSchema_def Let_def user_def w1_def)
  have c1: "consistent w1" using assms(1) by (simp add: w1_def consistent_minted)
  from assms(1) have bound: "\<forall>j\<in>set (subscribers w). j < length (connections (ext w))"
    by (simp add: consistent_def)
  have chunks: "\<forall>j\<in>set (subscribers w).
      res_chunks (connections (ext (events_emit (UserSignedIn user) w1)) ! j) =
        res_chunks (connections (ext w) ! j) @ frame (UserSignedIn user)"
    using events_emit_chunks [OF c1, of _ "UserSignedIn user"] bound by (simp add: w1_def)
  have fresh: "inj v4 \<longrightarrow> (\<forall>i<minted (ext w). v4 i \<noteq> id' user)"
    by (auto simp: user_def dest: injD)
  have named: "(\<forall>i. v4 i \<noteq> []) \<longrightarrow> id' user \<noteq> []" by (simp add: user_def)
  have fields: "published (ext (events_emit (UserSignedIn user) w1)) = published (ext w) @ [UserSignedIn user]"
      "minted (ext (events_emit (UserSignedIn user) w1)) = Suc (minted (ext w))"
    by (simp_all add: events_emit_fields w1_def)
  have body: \<open>stringify (user_object user) = ''{"id":'' @ quote (id' user) @ '',"name":'' @ quote n @ ''}''\<close>
    by (simp add: stringify_user_object) (simp add: user_def)
  have wire: \<open>frame (UserSignedIn user) =
               [''event: message\<newline>'',
                ''data: {"discriminant":"UserSignedIn","data":{"user":{"id":'' @
                quote (id' user) @ '',"name":'' @ quote n @ ''}}}\<newline>\<newline>'']\<close>
    using frame_signed_in [of user] by (simp add: user_def)
  from chunks fresh named fields body wire show ?thesis
    unfolding Let_def user_def [symmetric] by (simp add: r)
qed

text \<open>Bob registers, then Alice opens a stream.\<close>

lemma registered_then_stream:
  "subscribers (fold (serve v4) [PostChatRegister (JObject [(''name'', JString ''Bob'')]), GetChatSse alice] boot) = [0]"
  "minted (ext (fold (serve v4) [PostChatRegister (JObject [(''name'', JString ''Bob'')]), GetChatSse alice] boot)) = 1"
  "published (ext (fold (serve v4) [PostChatRegister (JObject [(''name'', JString ''Bob'')]), GetChatSse alice] boot))
     = [UserSignedIn \<lparr>id' = v4 0, name = ''Bob''\<rparr>]"
  "res_chunks (connections (ext (fold (serve v4) [PostChatRegister (JObject [(''name'', JString ''Bob'')]), GetChatSse alice] boot)) ! 0) = []"
  by (simp_all add: get_chat_sse_accept [OF userSchema_alice] post_chat_register_def signInSchema_def
        Let_def events_emit_fields nth_append boot_def new_observable_def)

text \<open>After that Alice registers: the second value of \<^verbatim>\<open>v4()\<close> is her id.\<close>

theorem register_publishes_signed_in_witness:
  \<open>fst (post_chat_register v4_sample (JObject [(''name'', JString ''Alice'')])
      (fold (serve v4_sample) [PostChatRegister (JObject [(''name'', JString ''Bob'')]), GetChatSse alice] boot))
     = \<lparr>status = 200, payload = Json ''{"id":"uuid-x","name":"Alice"}''\<rparr>
   \<and> published (ext (snd (post_chat_register v4_sample (JObject [(''name'', JString ''Alice'')])
      (fold (serve v4_sample) [PostChatRegister (JObject [(''name'', JString ''Bob'')]), GetChatSse alice] boot))))
     = [UserSignedIn \<lparr>id' = ''uuid-'', name = ''Bob''\<rparr>, UserSignedIn \<lparr>id' = ''uuid-x'', name = ''Alice''\<rparr>]
   \<and> res_chunks (connections (ext (snd (post_chat_register v4_sample (JObject [(''name'', JString ''Alice'')])
      (fold (serve v4_sample) [PostChatRegister (JObject [(''name'', JString ''Bob'')]), GetChatSse alice] boot)))) ! 0)
     = [''event: message\<newline>'',
        ''data: {"discriminant":"UserSignedIn","data":{"user":{"id":"uuid-x","name":"Alice"}}}\<newline>\<newline>'']
   \<and> v4_sample 0 \<noteq> ''uuid-x''\<close>
proof -
  have c: "consistent (fold (serve v4_sample)
      [PostChatRegister (JObject [(''name'', JString ''Bob'')]), GetChatSse alice] boot)"
    by (rule consistent_fold_serve [OF consistent_boot])
  have n: "map_of [(''name'', JString ''Alice'')] ''name'' = Some (JString ''Alice'')" by simp
  from register_publishes_signed_in [OF c n, of v4_sample] registered_then_stream [of v4_sample]
    inj_v4_sample v4_sample_nonempty
  show ?thesis
    by (simp add: Let_def del: fold_simps) (simp add: v4_sample_def quote_def escape_def)
qed

subsection \<open>Claim C9: posting a message\<close>

text \<open>
  Claim C9: a post-message request \<^verbatim>\<open>{user: {id, name}, message}\<close> with strings
  in the three places is answered with status 204 and no payload; exactly one
  \<^verbatim>\<open>UserMessage\<close> event is published, with the value of a new call of \<^verbatim>\<open>v4()\<close>
  as its id, the submitted user and the submitted message, and every subscribed stream,
  the sender's own included, receives it as one frame.
\<close>

theorem message_publishes_user_message:
  assumes "consistent w"
      and "map_of kvs ''message'' = Some (JString m)"
      and "map_of kvs ''user'' = Some (JObject ukvs)"
      and "map_of ukvs ''id'' = Some (JString i)"
      and "map_of ukvs ''name'' = Some (JString n)"
  shows \<open>let event = UserMessage (v4 (minted (ext w))) \<lparr>id' = i, name = n\<rparr> m;
             r = post_chat_message v4 (JObject kvs) w
         in fst r = \<lparr>status = 204, payload = Empty\<rparr>
          \<and> published (ext (snd r)) = published (ext w) @ [event]
          \<and> (\<forall>j\<in>set (subscribers w).
               res_chunks (connections (ext (snd r)) ! j) =
                 res_chunks (connections (ext w) ! j) @ frame event)
          \<and> frame event =
               [''event: message\<newline>'',
                ''data: {"discriminant":"UserMessage","data":{"message":'' @ quote m @
                '',"user":{"id":'' @ quote i @ '',"name":'' @ quote n @ ''},"id":'' @
                quote (v4 (minted (ext w))) @ ''}}\<newline>\<newline>'']
          \<and> minted (ext (snd r)) = Suc (minted (ext w))
          \<and> (inj v4 \<longrightarrow> (\<forall>i'<minted (ext w). v4 i' \<noteq> v4 (minted (ext w))))\<close>
proof -
  define event where "event = UserMessage (v4 (minted (ext w))) \<lparr>id' = i, name = n\<rparr> m"
  define w1 where "w1 = w\<lparr>ext := (ext w)\<lparr>minted := Suc (minted (ext w))\<rparr>\<rparr>"
  from assms(3-5) have u: "userSchema (map_of kvs ''user'') = Some \<lparr>id' = i, name = n\<rparr>"
    by (simp add: userSchema_object)
  have r: "post_chat_message v4 (JObject kvs) w = (\<lparr>status = 204, payload = Empty\<rparr>, events_emit event w1)"
    using assms(2) u by (simp add: post_chat_message_def messageSchema_def Let_def event_def w1_def)
  have c1: "consistent w1" using assms(1) by (simp add: w1_def consistent_minted)
  from assms(1) have bound: "\<forall>j\<in>set (subscribers w). j < length (connections (ext w))"
    by (simp add: consistent_def)
  have chunks: "\<forall>j\<in>set (subscribers w).
      res_chunks (connections (ext (events_emit event w1)) ! j) =
        res_chunks (connections (ext w) ! j) @ frame event"
    using events_emit_chunks [OF c1, of _ event] bound by (simp add: w1_def)
  have fresh: "inj v4 \<longrightarrow> (\<forall>i'<minted (ext w). v4 i' \<noteq> v4 (minted (ext w)))"
    by (auto dest: injD)
  have fields: "published (ext (events_emit event w1)) = published (ext w) @ [event]"
      "minted (ext (events_emit event w1)) = Suc (minted (ext w))"
    by (simp_all add: events_emit_fields w1_def)
  have wire: \<open>frame event =
               [''event: message\<newline>'',
                ''data: {"discriminant":"UserMessage","data":{"message":'' @ quote m @
                '',"user":{"id":'' @ quote i @ '',"name":'' @ quote n @ ''},"id":'' @
                quote (v4 (minted (ext w))) @ ''}}\<newline>\<newline>'']\<close>
    by (simp add: event_def frame_user_message)
  from chunks fresh fields wire show ?thesis
    unfolding Let_def event_def [symmetric] by (simp add: r)
qed

text \<open>Alice, whose stream is open, posts \<^verbatim>\<open>hi\<close> and receives her own message.\<close>

theorem message_publishes_user_message_witness:
  \<open>fst (post_chat_message v4_sample (JObject [(''user'', alice), (''message'', JString ''hi'')])
      (fold (serve v4_sample) [PostChatRegister (JObject [(''name'', JString ''Bob'')]), GetChatSse alice] boot))
     = \<lparr>status = 204, payload = Empty\<rparr>
   \<and> res_chunks (connections (ext (snd (post_chat_message v4_sample
        (JObject [(''user'', alice), (''message'', JString ''hi'')])
        (fold (serve v4_sample) [PostChatRegister (JObject [(''name'', JString ''Bob'')]), GetChatSse alice] boot)))) ! 0)
     = [''event: message\<newline>'',
        ''data: {"discriminant":"UserMessage","data":{"message":"hi","user":{"id":"u1","name":"Alice"},"id":"uuid-x"}}\<newline>\<newline>'']
   \<and> v4_sample 0 \<noteq> ''uuid-x''\<close>
proof -
  have c: "consistent (fold (serve v4_sample)
      [PostChatRegister (JObject [(''name'', JString ''Bob'')]), GetChatSse alice] boot)"
    by (rule consistent_fold_serve [OF consistent_boot])
  have m: "map_of [(''user'', alice), (''message'', JString ''hi'')] ''message'' = Some (JString ''hi'')"
    by simp
  have u: "map_of [(''user'', alice), (''message'', JString ''hi'')] ''user''
      = Some (JObject [(''id'', JString ''u1''), (''name'', JString ''Alice'')])"
    by (simp add: alice_def)
  have i: "map_of [(''id'', JString ''u1''), (''name'', JString ''Alice'')] ''id'' = Some (JString ''u1'')"
    by simp
  have n: "map_of [(''id'', JString ''u1''), (''name'', JString ''Alice'')] ''name'' = Some (JString ''Alice'')"
    by simp
  from message_publishes_user_message [OF c m u i n, of v4_sample] registered_then_stream [of v4_sample]
    inj_v4_sample
  show ?thesis
    by (simp add: Let_def del: fold_simps) (simp add: v4_sample_def quote_def escape_def)
qed

subsection \<open>Claim C10: opening a stream publishes nothing\<close>

text \<open>
  Claim C10: a stream request publishes no event, accepted or not; no request other
  than a register request publishes a \<^verbatim>\<open>UserSignedIn\<close> event; and in the run where
  Alice opens a stream without registering and closes it, a \<^verbatim>\<open>UserSignedOut\<close>
  event for her is published though no \<^verbatim>\<open>UserSignedIn\<close> event ever was.
\<close>

theorem stream_open_publishes_nothing:
  "published (ext (snd (get_chat_sse query w))) = published (ext w)
   \<and> ((\<forall>body. r \<noteq> PostChatRegister body) \<longrightarrow>
        (\<exists>new. published (ext (serve v4 r w)) = published (ext w) @ new
           \<and> (\<forall>u. UserSignedIn u \<notin> set new)))
   \<and> published (ext (fold (serve v4) [GetChatSse alice, Close 0] boot))
       = [UserSignedOut \<lparr>id' = ''u1'', name = ''Alice''\<rparr>]"
proof -
  have opened: "published (ext (snd (get_chat_sse query w))) = published (ext w)" for query w
  proof (cases "userSchema (Some query)")
    case None
    then show ?thesis by (simp add: get_chat_sse_reject)
  next
    case (Some u)
    then show ?thesis by (simp add: get_chat_sse_accept)
  qed
  have others: "(\<forall>body. r \<noteq> PostChatRegister body) \<longrightarrow>
        (\<exists>new. published (ext (serve v4 r w)) = published (ext w) @ new
           \<and> (\<forall>u. UserSignedIn u \<notin> set new))"
  proof (cases r)
    case (GetChatSse query)
    then show ?thesis by (simp add: opened)
  next
    case (PostChatRegister body)
    then show ?thesis by simp
  next
    case (PostChatMessage body)
    then show ?thesis
      by (auto simp: post_chat_message_def Let_def events_emit_fields split: option.splits)
  next
    case (Close k)
    then show ?thesis
      by (auto simp: transport_close_def on_close_def Let_def events_emit_fields invoke_fields
            mark_closed_fields)
  qed
  have run: "published (ext (fold (serve v4) [GetChatSse alice, Close 0] boot))
       = [UserSignedOut \<lparr>id' = ''u1'', name = ''Alice''\<rparr>]"
    by (simp add: transport_close_def on_close_def Let_def events_emit_fields invoke_fields
          mark_closed_fields mark_closed_nth
          get_chat_sse_accept [OF userSchema_alice] boot_def new_observable_def)
  from opened [of query w] others run show ?thesis by blast
qed

text \<open>The close of the stream Alice opened on the new server.\<close>

theorem stream_open_publishes_nothing_witness:
  "published (ext (snd (get_chat_sse alice boot))) = []
   \<and> published (ext (serve v4_sample (Close 0) (snd (get_chat_sse alice boot))))
       = [UserSignedOut \<lparr>id' = ''u1'', name = ''Alice''\<rparr>]"
proof -
  have a: "\<forall>body. Close 0 \<noteq> PostChatRegister body" by simp
  from stream_open_publishes_nothing [of alice boot "Close 0" v4_sample] a
  show ?thesis by (simp add: boot_def new_observable_def)
qed

end
